theory Spec2Isabelle
  imports Main
begin

section \<open>The host tree\<close>

text \<open>
  The radio group of \<^verbatim>\<open>dash-radio-group.js\<close> works on the DOM subtree below the
  \<^verbatim>\<open>dash-radio-group\<close> element. The subtree is a store: the host element and the list
  of its descendants in document order, each descendant carrying its tag name and its parent.
  A node handle is the host or the position of a descendant in document order; the JavaScript
  \<^verbatim>\<open>null\<close> is \<open>None\<close>.
\<close>

datatype node = Host | Desc nat

text \<open>The three content attributes the script reads and writes.\<close>

datatype attr = Role | AriaChecked | TabIndex

record attrs =
  role :: "string option"
  aria_checked :: "string option"
  tabindex :: "string option"

record element = attrs +
  tagName :: string
  parentNode :: node

text \<open>
  Everything the script does to its environment is appended to \<open>trace\<close>: each attribute
  write, each call of \<^verbatim>\<open>focus()\<close>, each \<^verbatim>\<open>preventDefault()\<close>.
\<close>

datatype effect = SetAttribute node attr string | Focus node | PreventDefault

record dom =
  host :: attrs
  desc :: "element list"
  keydown_listener :: bool
  click_listener :: bool
  trace :: "effect list"

text \<open>
  Dereferencing \<^verbatim>\<open>null\<close> throws a \<^verbatim>\<open>TypeError\<close>. A handler that throws keeps
  the mutations it has made so far, so a throw carries the state it was raised in.
\<close>

datatype error = TypeError

type_synonym outcome = "(error \<times> dom) + dom"

fun state_of :: "outcome \<Rightarrow> dom" where
  "state_of (Inl (e, s)) = s"
| "state_of (Inr s) = s"

fun getAttribute :: "'a attrs_scheme \<Rightarrow> attr \<Rightarrow> string option" where
  "getAttribute e Role = role e"
| "getAttribute e AriaChecked = aria_checked e"
| "getAttribute e TabIndex = tabindex e"

fun putAttribute :: "attr \<Rightarrow> string \<Rightarrow> 'a attrs_scheme \<Rightarrow> 'a attrs_scheme" where
  "putAttribute Role v e = e\<lparr>role := Some v\<rparr>"
| "putAttribute AriaChecked v e = e\<lparr>aria_checked := Some v\<rparr>"
| "putAttribute TabIndex v e = e\<lparr>tabindex := Some v\<rparr>"

definition nodeAttribute :: "dom \<Rightarrow> node \<Rightarrow> attr \<Rightarrow> string option" where
  "nodeAttribute s n a =
     (case n of Host \<Rightarrow> getAttribute (host s) a | Desc i \<Rightarrow> getAttribute (desc s ! i) a)"

text \<open>
  \<^verbatim>\<open>node.setAttribute(name, value)\<close>; the assignment \<^verbatim>\<open>node.tabIndex = v\<close> reflects
  into the \<^verbatim>\<open>tabindex\<close> content attribute and is the same write.
\<close>

definition setAttribute :: "dom \<Rightarrow> node \<Rightarrow> attr \<Rightarrow> string \<Rightarrow> dom" where
  "setAttribute s n a v =
     (case n of
        Host \<Rightarrow> s\<lparr>host := putAttribute a v (host s), trace := trace s @ [SetAttribute n a v]\<rparr>
      | Desc i \<Rightarrow> s\<lparr>desc := (desc s)[i := putAttribute a v (desc s ! i)],
                    trace := trace s @ [SetAttribute n a v]\<rparr>)"

subsection \<open>Selectors\<close>

definition role_radio :: "dom \<Rightarrow> nat \<Rightarrow> bool" where
  "role_radio s i = (role (desc s ! i) = Some ''radio'')"

definition aria_checked_true :: "dom \<Rightarrow> nat \<Rightarrow> bool" where
  "aria_checked_true s i = (aria_checked (desc s ! i) = Some ''true'')"

text \<open>Two descendants are siblings of one element type: same parent, same tag name.\<close>

definition same_type :: "dom \<Rightarrow> nat \<Rightarrow> nat \<Rightarrow> bool" where
  "same_type s i j =
     (parentNode (desc s ! i) = parentNode (desc s ! j) \<and> tagName (desc s ! i) = tagName (desc s ! j))"

text \<open>
  \<^verbatim>\<open>:first-of-type\<close> and \<^verbatim>\<open>:last-of-type\<close>: no earlier (later) sibling has the tag
  name. Siblings stand in document order, so the earlier ones are at smaller positions.
\<close>

definition first_of_type :: "dom \<Rightarrow> nat \<Rightarrow> bool" where
  "first_of_type s i = list_all (\<lambda>j. \<not> same_type s j i) [0..<i]"

definition last_of_type :: "dom \<Rightarrow> nat \<Rightarrow> bool" where
  "last_of_type s i = list_all (\<lambda>j. \<not> same_type s j i) [Suc i..<length (desc s)]"

definition radio_first_of_type :: "dom \<Rightarrow> nat \<Rightarrow> bool" where
  "radio_first_of_type s i = (role_radio s i \<and> first_of_type s i)"

definition radio_last_of_type :: "dom \<Rightarrow> nat \<Rightarrow> bool" where
  "radio_last_of_type s i = (role_radio s i \<and> last_of_type s i)"

text \<open>
  \<^verbatim>\<open>this.querySelectorAll(sel)\<close> lists the descendants matching the selector in document
  order; \<^verbatim>\<open>this.querySelector(sel)\<close> is the first of them, or \<^verbatim>\<open>null\<close>.
\<close>

definition querySelectorAll :: "dom \<Rightarrow> (dom \<Rightarrow> nat \<Rightarrow> bool) \<Rightarrow> nat list" where
  "querySelectorAll s sel = filter (sel s) [0..<length (desc s)]"

definition querySelector :: "dom \<Rightarrow> (dom \<Rightarrow> nat \<Rightarrow> bool) \<Rightarrow> nat option" where
  "querySelector s sel = find (sel s) [0..<length (desc s)]"

definition previousElementSibling :: "dom \<Rightarrow> nat \<Rightarrow> nat option" where
  "previousElementSibling s i =
     find (\<lambda>j. parentNode (desc s ! j) = parentNode (desc s ! i)) (rev [0..<i])"

definition nextElementSibling :: "dom \<Rightarrow> nat \<Rightarrow> nat option" where
  "nextElementSibling s i =
     find (\<lambda>j. parentNode (desc s ! j) = parentNode (desc s ! i)) [Suc i..<length (desc s)]"

section \<open>RadioButton\<close>

text \<open>
  \<^verbatim>\<open>RadioButton.connectedCallback\<close>: the role is always set; \<^verbatim>\<open>tabindex\<close> and
  \<^verbatim>\<open>aria-checked\<close> keep a value the user has set (\<^verbatim>\<open>null\<close> and the empty string
  are falsy) and default to \<^verbatim>\<open>-1\<close> and \<^verbatim>\<open>false\<close>.
\<close>

definition or_default :: "string option \<Rightarrow> string \<Rightarrow> string" where
  "or_default v d = (case v of None \<Rightarrow> d | Some x \<Rightarrow> (if x = [] then d else x))"

definition RadioButton_connectedCallback :: "dom \<Rightarrow> nat \<Rightarrow> dom" where
  "RadioButton_connectedCallback s i =
     (let s1 = setAttribute s (Desc i) Role ''radio'';
          s2 = setAttribute s1 (Desc i) TabIndex (or_default (tabindex (desc s1 ! i)) ''-1'')
      in setAttribute s2 (Desc i) AriaChecked (or_default (aria_checked (desc s2 ! i)) ''false''))"

section \<open>RadioGroup\<close>

definition KEYCODE_DOWN :: int where "KEYCODE_DOWN = 40"
definition KEYCODE_LEFT :: int where "KEYCODE_LEFT = 37"
definition KEYCODE_RIGHT :: int where "KEYCODE_RIGHT = 39"
definition KEYCODE_SPACE :: int where "KEYCODE_SPACE = 32"
definition KEYCODE_UP :: int where "KEYCODE_UP = 38"

definition checkedRadioButton :: "dom \<Rightarrow> nat option" where
  "checkedRadioButton s = querySelector s aria_checked_true"

definition firstRadioButton :: "dom \<Rightarrow> nat option" where
  "firstRadioButton s = querySelector s radio_first_of_type"

definition lastRadioButton :: "dom \<Rightarrow> nat option" where
  "lastRadioButton s = querySelector s radio_last_of_type"

text \<open>
  The loops of \<^verbatim>\<open>_prevRadioButton\<close> and \<^verbatim>\<open>_nextRadioButton\<close>, entered with the
  first sibling to look at: return it when its role is \<^verbatim>\<open>radio\<close>, else move on; return
  \<^verbatim>\<open>null\<close> when the siblings are used up.
\<close>

function prevLoop :: "dom \<Rightarrow> nat option \<Rightarrow> nat option" where
  "prevLoop s None = None"
| "prevLoop s (Some p) =
     (if role (desc s ! p) = Some ''radio'' then Some p
      else prevLoop s (previousElementSibling s p))"
  by pat_completeness auto
termination
proof (relation "measure (\<lambda>(s, x). case x of None \<Rightarrow> 0 | Some p \<Rightarrow> Suc p)")
  show "wf (measure (\<lambda>(s, x). case x of None \<Rightarrow> 0 | Some p \<Rightarrow> Suc p))"
    by simp
next
  fix s :: dom and p :: nat
  show "((s, previousElementSibling s p), (s, Some p))
          \<in> measure (\<lambda>(s, x). case x of None \<Rightarrow> 0 | Some p \<Rightarrow> Suc p)"
  proof (cases "previousElementSibling s p")
    case None
    then show ?thesis by simp
  next
    case (Some q)
    then obtain i where "i < length (rev [0..<p])" and "rev [0..<p] ! i = q"
      unfolding previousElementSibling_def find_Some_iff by blast
    then have "q \<in> set (rev [0..<p])"
      using nth_mem by blast
    with Some show ?thesis by simp
  qed
qed

function nextLoop :: "dom \<Rightarrow> nat option \<Rightarrow> nat option" where
  "nextLoop s None = None"
| "nextLoop s (Some p) =
     (if role (desc s ! p) = Some ''radio'' then Some p
      else nextLoop s (nextElementSibling s p))"
  by pat_completeness auto
termination
proof (relation "measure (\<lambda>(s, x). case x of None \<Rightarrow> 0 | Some p \<Rightarrow> Suc (length (desc s) - p))")
  show "wf (measure (\<lambda>(s, x). case x of None \<Rightarrow> 0 | Some p \<Rightarrow> Suc (length (desc s) - p)))"
    by simp
next
  fix s :: dom and p :: nat
  show "((s, nextElementSibling s p), (s, Some p))
          \<in> measure (\<lambda>(s, x). case x of None \<Rightarrow> 0 | Some p \<Rightarrow> Suc (length (desc s) - p))"
  proof (cases "nextElementSibling s p")
    case None
    then show ?thesis by simp
  next
    case (Some q)
    then obtain i where "i < length [Suc p..<length (desc s)]"
        and "[Suc p..<length (desc s)] ! i = q"
      unfolding nextElementSibling_def find_Some_iff by blast
    then have "q \<in> set [Suc p..<length (desc s)]"
      using nth_mem by blast
    with Some show ?thesis by auto
  qed
qed

definition prevRadioButton :: "dom \<Rightarrow> nat option \<Rightarrow> error + nat option" where
  "prevRadioButton s node =
     (case node of
        None \<Rightarrow> Inl TypeError
      | Some n \<Rightarrow> Inr (prevLoop s (previousElementSibling s n)))"

definition nextRadioButton :: "dom \<Rightarrow> nat option \<Rightarrow> error + nat option" where
  "nextRadioButton s node =
     (case node of
        None \<Rightarrow> Inl TypeError
      | Some n \<Rightarrow> Inr (nextLoop s (nextElementSibling s n)))"

text \<open>
  \<^verbatim>\<open>_uncheckAll\<close>: the node list is taken once, then every button of it gets
  \<^verbatim>\<open>aria-checked="false"\<close> and \<^verbatim>\<open>tabIndex = -1\<close>.
\<close>

primrec uncheckLoop :: "dom \<Rightarrow> nat list \<Rightarrow> dom" where
  "uncheckLoop s [] = s"
| "uncheckLoop s (btn # radioButtons) =
     uncheckLoop
       (setAttribute (setAttribute s (Desc btn) AriaChecked ''false'') (Desc btn) TabIndex ''-1'')
       radioButtons"

definition uncheckAll :: "dom \<Rightarrow> dom" where
  "uncheckAll s = uncheckLoop s (querySelectorAll s role_radio)"

definition checkNode :: "dom \<Rightarrow> node option \<Rightarrow> outcome" where
  "checkNode s node =
     (case node of
        None \<Rightarrow> Inl (TypeError, s)
      | Some n \<Rightarrow> Inr (setAttribute (setAttribute s n AriaChecked ''true'') n TabIndex ''0''))"

definition focusNode :: "dom \<Rightarrow> node option \<Rightarrow> outcome" where
  "focusNode s node =
     (case node of
        None \<Rightarrow> Inl (TypeError, s)
      | Some n \<Rightarrow> Inr (s\<lparr>trace := trace s @ [Focus n]\<rparr>))"

definition setChecked :: "dom \<Rightarrow> node option \<Rightarrow> outcome" where
  "setChecked s node =
     (case checkNode (uncheckAll s) node of
        Inl x \<Rightarrow> Inl x
      | Inr s1 \<Rightarrow> focusNode s1 node)"

text \<open>
  \<^verbatim>\<open>this.checkedRadioButton || this.firstRadioButton\<close>, the button both keyboard moves
  start from: an element is truthy, \<^verbatim>\<open>null\<close> is not.
\<close>

definition checkedButton :: "dom \<Rightarrow> nat option" where
  "checkedButton s =
     (case checkedRadioButton s of Some c \<Rightarrow> Some c | None \<Rightarrow> firstRadioButton s)"

definition setCheckedToPrevButton :: "dom \<Rightarrow> outcome" where
  "setCheckedToPrevButton s =
     (if checkedButton s = firstRadioButton s
      then setChecked s (map_option Desc (lastRadioButton s))
      else (case prevRadioButton s (checkedButton s) of
              Inl e \<Rightarrow> Inl (e, s)
            | Inr p \<Rightarrow> setChecked s (map_option Desc p)))"

definition setCheckedToNextButton :: "dom \<Rightarrow> outcome" where
  "setCheckedToNextButton s =
     (if checkedButton s = lastRadioButton s
      then setChecked s (map_option Desc (firstRadioButton s))
      else (case nextRadioButton s (checkedButton s) of
              Inl e \<Rightarrow> Inl (e, s)
            | Inr p \<Rightarrow> setChecked s (map_option Desc p)))"

definition preventDefault :: "dom \<Rightarrow> dom" where
  "preventDefault s = s\<lparr>trace := trace s @ [PreventDefault]\<rparr>"

definition onKeyDown :: "dom \<Rightarrow> int \<Rightarrow> outcome" where
  "onKeyDown s keyCode =
     (if keyCode = KEYCODE_UP \<or> keyCode = KEYCODE_LEFT
        then setCheckedToPrevButton (preventDefault s)
      else if keyCode = KEYCODE_DOWN \<or> keyCode = KEYCODE_RIGHT
        then setCheckedToNextButton (preventDefault s)
      else Inr s)"

definition onClick :: "dom \<Rightarrow> node \<Rightarrow> outcome" where
  "onClick s target =
     (if nodeAttribute s target Role = Some ''radio'' then setChecked s (Some target) else Inr s)"

definition connectedCallback :: "dom \<Rightarrow> outcome" where
  "connectedCallback s =
     (let s1 = setAttribute s Host Role ''radiogroup'' in
      case (case checkedRadioButton s1 of
              Some firstCheckedButton \<Rightarrow> checkNode (uncheckAll s1) (Some (Desc firstCheckedButton))
            | None \<Rightarrow>
                (case querySelector s1 role_radio of
                   None \<Rightarrow> Inl (TypeError, s1)
                 | Some r \<Rightarrow> Inr (setAttribute s1 (Desc r) TabIndex ''0''))) of
        Inl x \<Rightarrow> Inl x
      | Inr s2 \<Rightarrow> Inr (s2\<lparr>keydown_listener := True, click_listener := True\<rparr>))"

definition disconnectedCallback :: "dom \<Rightarrow> dom" where
  "disconnectedCallback s = s\<lparr>keydown_listener := False, click_listener := False\<rparr>"

text \<open>
  The events the two listeners receive. A handler that throws leaves the state as it was at
  the throw; the next event finds it so.
\<close>

datatype event = KeyDown int | Click node

fun handle :: "dom \<Rightarrow> event \<Rightarrow> outcome" where
  "handle s (KeyDown keyCode) = onKeyDown s keyCode"
| "handle s (Click target) = onClick s target"

fun run :: "dom \<Rightarrow> event list \<Rightarrow> dom" where
  "run s [] = s"
| "run s (e # es) = run (state_of (handle s e)) es"

section \<open>The vocabulary of the properties\<close>

text \<open>
  The candidate items of the group are the descendants with role \<^verbatim>\<open>radio\<close>; an item is
  selected when its \<^verbatim>\<open>aria-checked\<close> is \<^verbatim>\<open>true\<close> and focusable when its
  \<^verbatim>\<open>tabindex\<close> is \<^verbatim>\<open>0\<close>.
\<close>

definition items :: "dom \<Rightarrow> nat list" where
  "items s = querySelectorAll s role_radio"

definition isSelected :: "dom \<Rightarrow> nat \<Rightarrow> bool" where
  "isSelected s i = (aria_checked (desc s ! i) = Some ''true'')"

definition isFocusable :: "dom \<Rightarrow> nat \<Rightarrow> bool" where
  "isFocusable s i = (tabindex (desc s ! i) = Some ''0'')"

definition selected :: "dom \<Rightarrow> nat list" where
  "selected s = filter (isSelected s) (items s)"

definition focusable :: "dom \<Rightarrow> nat list" where
  "focusable s = filter (isFocusable s) (items s)"

text \<open>An element with both flags cleared, and with both flags set.\<close>

definition cleared :: "element \<Rightarrow> element" where
  "cleared e = e\<lparr>aria_checked := Some ''false'', tabindex := Some ''-1''\<rparr>"

definition marked :: "element \<Rightarrow> element" where
  "marked e = e\<lparr>aria_checked := Some ''true'', tabindex := Some ''0''\<rparr>"

definition clear_radios :: "element list \<Rightarrow> element list" where
  "clear_radios es = map (\<lambda>e. if role e = Some ''radio'' then cleared e else e) es"

definition uncheck_effects :: "nat list \<Rightarrow> effect list" where
  "uncheck_effects bs =
     concat (map (\<lambda>b. [SetAttribute (Desc b) AriaChecked ''false'',
                        SetAttribute (Desc b) TabIndex ''-1'']) bs)"

definition check_effects :: "node \<Rightarrow> effect list" where
  "check_effects n = [SetAttribute n AriaChecked ''true'', SetAttribute n TabIndex ''0'']"

text \<open>The recognised direction keys: up, left, down, right.\<close>

definition direction_key :: "int \<Rightarrow> bool" where
  "direction_key k =
     (k = KEYCODE_UP \<or> k = KEYCODE_LEFT \<or> k = KEYCODE_DOWN \<or> k = KEYCODE_RIGHT)"

subsection \<open>Example trees\<close>

definition radio_button :: "string \<Rightarrow> string \<Rightarrow> element" where
  "radio_button c t =
     \<lparr>role = Some ''radio'', aria_checked = Some c, tabindex = Some t,
      tagName = ''dash-radio-button'', parentNode = Host\<rparr>"

definition plain :: "string \<Rightarrow> node \<Rightarrow> element" where
  "plain tag p =
     \<lparr>role = None, aria_checked = None, tabindex = None, tagName = tag, parentNode = p\<rparr>"

definition group_of :: "element list \<Rightarrow> dom" where
  "group_of es =
     \<lparr>host = \<lparr>role = Some ''radiogroup'', aria_checked = None, tabindex = None\<rparr>,
      desc = es, keydown_listener = True, click_listener = True, trace = []\<rparr>"

text \<open>Three buttons A, B, C with B checked.\<close>

definition group_abc :: dom where
  "group_abc =
     group_of [radio_button ''false'' ''-1'', radio_button ''true'' ''0'',
               radio_button ''false'' ''-1'']"

text \<open>A button with a \<^verbatim>\<open>span\<close> inside it, then a second button.\<close>

definition group_nested :: dom where
  "group_nested =
     group_of [radio_button ''true'' ''0'', plain ''span'' (Desc 0),
               radio_button ''false'' ''-1'']"

text \<open>Several nodes between two buttons that are no candidates.\<close>

definition group_skip :: dom where
  "group_skip =
     group_of [radio_button ''true'' ''0'', plain ''span'' Host, plain ''label'' Host,
               radio_button ''false'' ''-1'']"

subsection \<open>Nearest candidate sibling\<close>

definition sibling :: "dom \<Rightarrow> nat \<Rightarrow> nat \<Rightarrow> bool" where
  "sibling s i j = (parentNode (desc s ! j) = parentNode (desc s ! i))"

text \<open>
  \<open>r\<close> is the nearest sibling after \<open>i\<close> with role \<^verbatim>\<open>radio\<close>: it is one, and no
  sibling strictly between the two is; \<open>r\<close> is nothing when no sibling after \<open>i\<close> is a
  candidate. The same before \<open>i\<close>.
\<close>

definition nearest_after :: "dom \<Rightarrow> nat \<Rightarrow> nat option \<Rightarrow> bool" where
  "nearest_after s i r =
     (case r of
        None \<Rightarrow> list_all (\<lambda>j. \<not> (sibling s i j \<and> role_radio s j)) [Suc i..<length (desc s)]
      | Some q \<Rightarrow> i < q \<and> q < length (desc s) \<and> sibling s i q \<and> role_radio s q
                  \<and> list_all (\<lambda>j. \<not> (sibling s i j \<and> role_radio s j)) [Suc i..<q])"

definition nearest_before :: "dom \<Rightarrow> nat \<Rightarrow> nat option \<Rightarrow> bool" where
  "nearest_before s i r =
     (case r of
        None \<Rightarrow> list_all (\<lambda>j. \<not> (sibling s i j \<and> role_radio s j)) [0..<i]
      | Some q \<Rightarrow> q < i \<and> sibling s i q \<and> role_radio s q
                  \<and> list_all (\<lambda>j. \<not> (sibling s i j \<and> role_radio s j)) [Suc q..<i])"

subsection \<open>Select operations\<close>

text \<open>
  A select operation is a direction key, or a click on a node whose role is
  \<^verbatim>\<open>radio\<close>; a sequence of select operations is judged step by step, each event in the
  state the events before it have left.
\<close>

definition at_most_one :: "'a list \<Rightarrow> bool" where
  "at_most_one xs = (length xs \<le> 1)"

fun select_op :: "dom \<Rightarrow> event \<Rightarrow> bool" where
  "select_op s (KeyDown k) = direction_key k"
| "select_op s (Click target) = (nodeAttribute s target Role = Some ''radio'')"

fun select_ops :: "dom \<Rightarrow> event list \<Rightarrow> bool" where
  "select_ops s [] = True"
| "select_ops s (e # es) = (select_op s e \<and> select_ops (state_of (handle s e)) es)"

subsection \<open>Attaching\<close>

text \<open>The host after \<^verbatim>\<open>setAttribute('role', 'radiogroup')\<close>; a descendant made focusable.\<close>

definition role_radiogroup :: "attrs \<Rightarrow> attrs" where
  "role_radiogroup h = h\<lparr>role := Some ''radiogroup''\<rparr>"

definition focus_first :: "element \<Rightarrow> element" where
  "focus_first e = e\<lparr>tabindex := Some ''0''\<rparr>"

text \<open>
  A stray checked node is a descendant that carries \<^verbatim>\<open>aria-checked="true"\<close>, is no
  candidate item, and has no selected item before it in document order. A tree without one:
  the first descendant carrying \<^verbatim>\<open>aria-checked="true"\<close>, if there is any, is an item.
\<close>

definition stray_checked :: "dom \<Rightarrow> nat \<Rightarrow> bool" where
  "stray_checked s j =
     (aria_checked_true s j \<and> \<not> role_radio s j
      \<and> list_all (\<lambda>i. \<not> (role_radio s i \<and> aria_checked_true s i)) [0..<j])"

definition no_stray_checked :: "dom \<Rightarrow> bool" where
  "no_stray_checked s = list_all (\<lambda>j. \<not> stray_checked s j) [0..<length (desc s)]"

text \<open>
  Two unchecked buttons with a \<^verbatim>\<open>span\<close> carrying \<^verbatim>\<open>aria-checked="true"\<close> between
  them; and the same with the first button checked, so that the \<^verbatim>\<open>span\<close> comes after a
  selected item.
\<close>

definition group_stray :: dom where
  "group_stray =
     group_of [radio_button ''false'' ''-1'',
               (plain ''span'' Host)\<lparr>aria_checked := Some ''true''\<rparr>,
               radio_button ''false'' ''-1'']"

definition group_late_stray :: dom where
  "group_late_stray =
     group_of [radio_button ''true'' ''0'',
               (plain ''span'' Host)\<lparr>aria_checked := Some ''true''\<rparr>,
               radio_button ''false'' ''-1'']"

text \<open>
  The state of the flags: the attributes of the host and of every descendant, and whether
  the two listeners are registered. The trace of effects is not part of it.
\<close>

definition flags :: "dom \<Rightarrow> attrs \<times> element list \<times> bool \<times> bool" where
  "flags s = (host s, desc s, keydown_listener s, click_listener s)"

text \<open>A group element with nothing below it, not yet attached.\<close>

definition empty_group :: dom where
  "empty_group =
     \<lparr>host = \<lparr>role = None, aria_checked = None, tabindex = None\<rparr>,
      desc = [], keydown_listener = False, click_listener = False, trace = []\<rparr>"

text \<open>Three buttons, none checked.\<close>

definition group_fresh :: dom where
  "group_fresh =
     group_of [radio_button ''false'' ''-1'', radio_button ''false'' ''-1'',
               radio_button ''false'' ''-1'']"

subsection \<open>Groups whose ends the type selectors find\<close>

text \<open>
  The first item has no earlier sibling of its tag name, the last item has no later sibling
  of its tag name, and every other item has a later sibling of its tag name. Nodes of other
  tags may stand anywhere, and nodes of the items' tag that are no candidates may stand
  between the items.
\<close>

definition wrap_ready :: "dom \<Rightarrow> bool" where
  "wrap_ready s =
     (first_of_type s (hd (items s)) \<and> last_of_type s (last (items s))
      \<and> list_all (\<lambda>j. j = last (items s) \<or> \<not> last_of_type s j) (items s))"







text \<open>
  The markup \<^verbatim>\<open><dash-radio-button>\<close>, \<^verbatim>\<open><dash-radio-button tabindex="0">\<close> below a
  group, before any script has run, and the same after both buttons have been connected.
\<close>

definition markup_two_buttons :: dom where
  "markup_two_buttons =
     \<lparr>host = \<lparr>role = None, aria_checked = None, tabindex = None\<rparr>,
      desc = [plain ''dash-radio-button'' Host,
              (plain ''dash-radio-button'' Host)\<lparr>tabindex := Some ''0''\<rparr>],
      keydown_listener = False, click_listener = False, trace = []\<rparr>"

definition group_two_buttons :: dom where
  "group_two_buttons =
     RadioButton_connectedCallback (RadioButton_connectedCallback markup_two_buttons 0) 1"

section \<open>Basic facts\<close>

lemma desc_setAttribute_Desc:
  "desc (setAttribute s (Desc i) a v) = (desc s)[i := putAttribute a v (desc s ! i)]"
  by (simp add: setAttribute_def)

lemma setAttribute_Host_fields:
  "desc (setAttribute s Host a v) = desc s"
  "host (setAttribute s Host a v) = putAttribute a v (host s)"
  by (simp_all add: setAttribute_def)

lemma setAttribute_other_fields:
  "trace (setAttribute s n a v) = trace s @ [SetAttribute n a v]"
  "keydown_listener (setAttribute s n a v) = keydown_listener s"
  "click_listener (setAttribute s n a v) = click_listener s"
  "host (setAttribute s (Desc i) a v) = host s"
  by (simp_all add: setAttribute_def split: node.splits)

lemma uncheck_step_desc:
  "desc (setAttribute (setAttribute s (Desc b) AriaChecked ''false'') (Desc b) TabIndex ''-1'')
     = (desc s)[b := cleared (desc s ! b)]"
  by (cases "b < length (desc s)")
     (simp_all add: desc_setAttribute_Desc cleared_def list_update_beyond)

lemma length_uncheckLoop: "length (desc (uncheckLoop s bs)) = length (desc s)"
  by (induction bs arbitrary: s) (simp_all add: desc_setAttribute_Desc)

lemma cleared_idem: "cleared (cleared e) = cleared e"
  by (simp add: cleared_def)

lemma nth_uncheckLoop:
  "j < length (desc s) \<Longrightarrow>
   desc (uncheckLoop s bs) ! j = (if j \<in> set bs then cleared (desc s ! j) else desc s ! j)"
proof (induction bs arbitrary: s)
  case Nil
  then show ?case by simp
next
  case (Cons b bs)
  let ?s1 = "setAttribute (setAttribute s (Desc b) AriaChecked ''false'') (Desc b) TabIndex ''-1''"
  have d: "desc ?s1 = (desc s)[b := cleared (desc s ! b)]"
    by (rule uncheck_step_desc)
  have "j < length (desc ?s1)" using Cons.prems d by simp
  then have "desc (uncheckLoop ?s1 bs) ! j
      = (if j \<in> set bs then cleared (desc ?s1 ! j) else desc ?s1 ! j)"
    by (rule Cons.IH)
  then show ?case using Cons.prems
    by (cases "j = b") (simp_all add: d cleared_idem)
qed

lemma uncheckLoop_other_fields:
  "host (uncheckLoop s bs) = host s"
  "keydown_listener (uncheckLoop s bs) = keydown_listener s"
  "click_listener (uncheckLoop s bs) = click_listener s"
  by (induction bs arbitrary: s) (simp_all add: setAttribute_other_fields)

lemma trace_uncheckLoop: "trace (uncheckLoop s bs) = trace s @ uncheck_effects bs"
  by (induction bs arbitrary: s) (simp_all add: setAttribute_other_fields uncheck_effects_def)

lemma desc_uncheckAll: "desc (uncheckAll s) = clear_radios (desc s)"
proof (rule nth_equalityI)
  show "length (desc (uncheckAll s)) = length (clear_radios (desc s))"
    by (simp add: uncheckAll_def length_uncheckLoop clear_radios_def)
next
  fix j assume "j < length (desc (uncheckAll s))"
  then have j: "j < length (desc s)"
    by (simp add: uncheckAll_def length_uncheckLoop)
  then show "desc (uncheckAll s) ! j = clear_radios (desc s) ! j"
    by (simp add: uncheckAll_def nth_uncheckLoop querySelectorAll_def role_radio_def
        clear_radios_def)
qed

lemma uncheckAll_eq:
  "uncheckAll s = s\<lparr>desc := clear_radios (desc s), trace := trace s @ uncheck_effects (items s)\<rparr>"
  by (rule dom.equality)
     (simp_all add: desc_uncheckAll,
      simp_all add: uncheckAll_def uncheckLoop_other_fields trace_uncheckLoop items_def)

section \<open>Inputs that are ignored\<close>

text \<open>
  C9. A key that is none of up, left, down, right leaves the whole state as it is (every
  flag of every item, and no effect is issued), and the handler returns normally; the space
  key, listed in \<^verbatim>\<open>KEYCODE\<close>, is such a key.
\<close>

theorem onKeyDown_other_key:
  "(\<not> direction_key k \<longrightarrow> onKeyDown s k = Inr s) \<and> onKeyDown s KEYCODE_SPACE = Inr s"
  by (simp add: onKeyDown_def direction_key_def KEYCODE_UP_def KEYCODE_LEFT_def
      KEYCODE_DOWN_def KEYCODE_RIGHT_def KEYCODE_SPACE_def)

theorem onKeyDown_other_key_witness:
  "\<not> direction_key 13 \<and> onKeyDown group_abc 13 = Inr group_abc
     \<and> onKeyDown group_abc KEYCODE_SPACE = Inr group_abc"
  using onKeyDown_other_key [of 13 group_abc]
  by (simp add: direction_key_def KEYCODE_UP_def KEYCODE_LEFT_def KEYCODE_DOWN_def
      KEYCODE_RIGHT_def)

text \<open>
  C10. A click whose exact target does not itself have role \<^verbatim>\<open>radio\<close> leaves the whole
  state as it is: no flag changes and no focus request is issued. The target may be the host,
  or a node nested inside a candidate item.
\<close>

theorem onClick_not_radio:
  "nodeAttribute s target Role \<noteq> Some ''radio'' \<Longrightarrow> onClick s target = Inr s"
  by (simp add: onClick_def)

theorem onClick_not_radio_witness:
  "nodeAttribute group_nested (Desc 1) Role \<noteq> Some ''radio''
     \<and> parentNode (desc group_nested ! 1) = Desc 0
     \<and> role_radio group_nested 0
     \<and> onClick group_nested (Desc 1) = Inr group_nested"
proof -
  have h: "nodeAttribute group_nested (Desc 1) Role \<noteq> Some ''radio''"
    by (simp add: nodeAttribute_def group_nested_def group_of_def plain_def)
  have "parentNode (desc group_nested ! 1) = Desc 0" "role_radio group_nested 0"
    by (simp_all add: group_nested_def group_of_def plain_def radio_button_def role_radio_def)
  with h onClick_not_radio [OF h] show ?thesis by simp
qed

section \<open>The select operation\<close>

lemma nth_clear_radios:
  "j < length es \<Longrightarrow> clear_radios es ! j = (if role (es ! j) = Some ''radio'' then cleared (es ! j) else es ! j)"
  by (simp add: clear_radios_def)

lemma length_clear_radios: "length (clear_radios es) = length es"
  by (simp add: clear_radios_def)

lemma marked_clear: "marked (cleared e) = marked e"
  by (simp add: marked_def cleared_def)

lemma check_step_desc:
  "desc (setAttribute (setAttribute s (Desc i) AriaChecked ''true'') (Desc i) TabIndex ''0'')
     = (desc s)[i := marked (desc s ! i)]"
  by (cases "i < length (desc s)")
     (simp_all add: desc_setAttribute_Desc marked_def list_update_beyond)

lemma checkNode_Desc:
  "checkNode s (Some (Desc i)) =
     Inr (s\<lparr>desc := (desc s)[i := marked (desc s ! i)], trace := trace s @ check_effects (Desc i)\<rparr>)"
  unfolding checkNode_def
  by (simp, rule dom.equality)
     (simp_all add: check_step_desc, simp_all add: setAttribute_other_fields check_effects_def)

lemma setChecked_Desc:
  "setChecked s (Some (Desc i)) =
     Inr (s\<lparr>desc := (clear_radios (desc s))[i := marked (desc s ! i)],
            trace := trace s @ uncheck_effects (items s) @ check_effects (Desc i)
                       @ [Focus (Desc i)]\<rparr>)"
proof (cases "i < length (desc s)")
  case True
  then show ?thesis
    by (simp add: setChecked_def checkNode_Desc focusNode_def uncheckAll_eq nth_clear_radios
        marked_clear)
next
  case False
  then show ?thesis
    by (simp add: setChecked_def checkNode_Desc focusNode_def uncheckAll_eq
        list_update_beyond length_clear_radios)
qed


text \<open>
  C3. For a target that belongs to the group, \<^verbatim>\<open>_setChecked\<close> returns normally; every
  candidate item other than the target ends with both flags cleared and the target with both
  flags set; the effects it issues are, in this order, the clearing writes on every item, the
  two setting writes on the target, and one focus request naming the target, which is the
  only focus request and comes last.
\<close>

theorem setChecked_item:
  assumes "i < length (desc s)"
  shows "\<exists>s'. setChecked s (Some (Desc i)) = Inr s'
     \<and> desc s' = (clear_radios (desc s))[i := marked (desc s ! i)]
     \<and> (\<forall>j\<in>set (items s). j \<noteq> i \<longrightarrow> \<not> isSelected s' j \<and> \<not> isFocusable s' j)
     \<and> isSelected s' i \<and> isFocusable s' i
     \<and> trace s' = trace s @ uncheck_effects (items s) @ check_effects (Desc i) @ [Focus (Desc i)]"
  using assms
  by (auto simp: setChecked_Desc isSelected_def isFocusable_def items_def querySelectorAll_def
      role_radio_def nth_clear_radios length_clear_radios marked_def cleared_def)

theorem setChecked_item_witness:
  "2 < length (desc group_abc) \<and>
   (\<exists>s'. setChecked group_abc (Some (Desc 2)) = Inr s'
      \<and> isSelected s' 2 \<and> isFocusable s' 2 \<and> \<not> isSelected s' 1 \<and> \<not> isFocusable s' 1
      \<and> trace s' = uncheck_effects [0, 1, 2] @ check_effects (Desc 2) @ [Focus (Desc 2)])"
proof -
  have h: "2 < length (desc group_abc)"
    by (simp add: group_abc_def group_of_def)
  have m: "items group_abc = [0, 1, 2]"
    by code_simp
  have t: "trace group_abc = []"
    by (simp add: group_abc_def group_of_def)
  from setChecked_item [OF h] obtain s' where
    "setChecked group_abc (Some (Desc 2)) = Inr s'"
    "\<forall>j\<in>set (items group_abc). j \<noteq> 2 \<longrightarrow> \<not> isSelected s' j \<and> \<not> isFocusable s' j"
    "isSelected s' 2" "isFocusable s' 2"
    "trace s' = trace group_abc @ uncheck_effects (items group_abc) @ check_effects (Desc 2)
        @ [Focus (Desc 2)]"
    by blast
  with h m t show ?thesis by simp
qed

section \<open>Walking the siblings\<close>

lemma nextLoop_find:
  "nextLoop s (find (\<lambda>j. parentNode (desc s ! j) = p) [a..<length (desc s)])
     = find (\<lambda>j. parentNode (desc s ! j) = p \<and> role_radio s j) [a..<length (desc s)]"
proof (induction "length (desc s) - a" arbitrary: a)
  case 0
  then show ?case by simp
next
  case (Suc k)
  then have lt: "a < length (desc s)" and k: "k = length (desc s) - Suc a"
    by simp_all
  have up: "[a..<length (desc s)] = a # [Suc a..<length (desc s)]"
    using lt by (simp add: upt_conv_Cons)
  show ?case
  proof (cases "parentNode (desc s ! a) = p")
    case True
    then show ?thesis
      using Suc.hyps(1) [OF k]
      by (simp add: up nextElementSibling_def role_radio_def)
  next
    case False
    then show ?thesis
      using Suc.hyps(1) [OF k] by (simp add: up)
  qed
qed

lemma prevLoop_find:
  "prevLoop s (find (\<lambda>j. parentNode (desc s ! j) = p) (rev [0..<a]))
     = find (\<lambda>j. parentNode (desc s ! j) = p \<and> role_radio s j) (rev [0..<a])"
proof (induction a)
  case 0
  then show ?case by simp
next
  case (Suc a)
  show ?case
  proof (cases "parentNode (desc s ! a) = p")
    case True
    then show ?thesis
      using Suc.IH by (simp add: previousElementSibling_def role_radio_def)
  next
    case False
    then show ?thesis
      using Suc.IH by simp
  qed
qed

lemma find_upt_nearest:
  "find P [a..<n] = Some q \<longleftrightarrow> a \<le> q \<and> q < n \<and> P q \<and> (\<forall>j. a \<le> j \<and> j < q \<longrightarrow> \<not> P j)"
proof (induction "n - a" arbitrary: a)
  case 0
  then show ?case by auto
next
  case (Suc k)
  then have lt: "a < n" and k: "k = n - Suc a" by simp_all
  have up: "[a..<n] = a # [Suc a..<n]" using lt by (simp add: upt_conv_Cons)
  show ?case
  proof (cases "P a")
    case True
    then show ?thesis using lt by (auto simp: up intro: le_antisym) 
  next
    case False
    have "(\<forall>j. a \<le> j \<and> j < q \<longrightarrow> \<not> P j) \<longleftrightarrow> (\<forall>j. Suc a \<le> j \<and> j < q \<longrightarrow> \<not> P j)"
      using False by (metis Suc_leI le_neq_implies_less Suc_leD)
    moreover have "a \<le> q \<and> P q \<longleftrightarrow> Suc a \<le> q \<and> P q"
      using False by (metis Suc_leI le_neq_implies_less Suc_leD)
    ultimately show ?thesis
      using False Suc.hyps(1) [OF k] by (auto simp: up)
  qed
qed

lemma find_rev_upt_nearest:
  "find P (rev [0..<a]) = Some q \<longleftrightarrow> q < a \<and> P q \<and> (\<forall>j. q < j \<and> j < a \<longrightarrow> \<not> P j)"
proof (induction a)
  case 0
  then show ?case by simp
next
  case (Suc a)
  show ?case
  proof (cases "P a")
    case True
    then show ?thesis by (auto simp: less_Suc_eq)
  next
    case False
    then show ?thesis using Suc.IH by (auto simp: less_Suc_eq)
  qed
qed

lemma nearest_after_find:
  "nearest_after s i (find (\<lambda>j. parentNode (desc s ! j) = parentNode (desc s ! i) \<and> role_radio s j)
      [Suc i..<length (desc s)])"
proof (cases "find (\<lambda>j. parentNode (desc s ! j) = parentNode (desc s ! i) \<and> role_radio s j)
      [Suc i..<length (desc s)]")
  case None
  then have "\<forall>j\<in>set [Suc i..<length (desc s)]. \<not> (sibling s i j \<and> role_radio s j)"
    by (simp add: find_None_iff sibling_def)
  then show ?thesis
    unfolding None nearest_after_def by (simp add: list_all_iff)
next
  case (Some q)
  then have "Suc i \<le> q \<and> q < length (desc s) \<and> sibling s i q \<and> role_radio s q
      \<and> (\<forall>j\<in>set [Suc i..<q]. \<not> (sibling s i j \<and> role_radio s j))"
    by (simp add: find_upt_nearest sibling_def)
  then show ?thesis
    unfolding Some nearest_after_def by (simp add: list_all_iff)
qed

lemma nearest_before_find:
  "nearest_before s i (find (\<lambda>j. parentNode (desc s ! j) = parentNode (desc s ! i) \<and> role_radio s j)
      (rev [0..<i]))"
proof (cases "find (\<lambda>j. parentNode (desc s ! j) = parentNode (desc s ! i) \<and> role_radio s j)
      (rev [0..<i])")
  case None
  then have "\<forall>j\<in>set [0..<i]. \<not> (sibling s i j \<and> role_radio s j)"
    by (simp add: find_None_iff sibling_def)
  then show ?thesis
    unfolding None nearest_before_def by (simp add: list_all_iff)
next
  case (Some q)
  then have "q < i \<and> sibling s i q \<and> role_radio s q
      \<and> (\<forall>j\<in>set [Suc q..<i]. \<not> (sibling s i j \<and> role_radio s j))"
    by (simp add: find_rev_upt_nearest sibling_def)
  then show ?thesis
    unfolding Some nearest_before_def by (simp add: list_all_iff)
qed


text \<open>
  C8. From any current node, \<^verbatim>\<open>_nextRadioButton\<close> returns the nearest following sibling
  whose role is \<^verbatim>\<open>radio\<close>, passing over the siblings in between that are no candidates,
  and \<^verbatim>\<open>null\<close> when no following sibling is a candidate; \<^verbatim>\<open>_prevRadioButton\<close> does
  the same among the preceding siblings.
\<close>

theorem radio_sibling_nearest:
  "(\<exists>r. nextRadioButton s (Some i) = Inr r \<and> nearest_after s i r) \<and>
   (\<exists>r. prevRadioButton s (Some i) = Inr r \<and> nearest_before s i r)"
  by (simp add: nextRadioButton_def prevRadioButton_def nextElementSibling_def
      previousElementSibling_def nextLoop_find prevLoop_find nearest_after_find
      nearest_before_find)

theorem radio_sibling_nearest_witness:
  "nextRadioButton group_skip (Some 0) = Inr (Some 3) \<and> nearest_after group_skip 0 (Some 3) \<and>
   prevRadioButton group_skip (Some 0) = Inr None \<and> nearest_before group_skip 0 None"
proof -
  have "nextRadioButton group_skip (Some 0) = Inr (Some 3)"
    and "prevRadioButton group_skip (Some 0) = Inr None"
    by code_simp+
  with radio_sibling_nearest [of group_skip 0] show ?thesis by simp
qed

section \<open>At most one item is selected\<close>

lemma selected_alt:
  "selected s = filter (\<lambda>j. role_radio s j \<and> isSelected s j) [0..<length (desc s)]"
  by (simp add: selected_def items_def querySelectorAll_def conj_commute)

lemma selected_cong:
  "desc s = desc s' \<Longrightarrow> selected s = selected s'"
  by (simp add: selected_alt role_radio_def isSelected_def)

lemma filter_upt_at_most_one:
  assumes "\<And>j. j < n \<Longrightarrow> P j \<Longrightarrow> j = i"
  shows "length (filter P [0..<n]) \<le> 1"
proof -
  have "distinct (filter P [0..<n])" by simp
  then have "length (filter P [0..<n]) = card (set (filter P [0..<n]))"
    by (simp only: distinct_card)
  also have "\<dots> \<le> card {i}"
    by (rule card_mono) (use assms in auto)
  finally show ?thesis by simp
qed

lemma selected_clear_radios:
  "desc s = clear_radios d \<Longrightarrow> selected s = []"
  by (auto simp: selected_alt filter_empty_conv role_radio_def isSelected_def clear_radios_def
      cleared_def split: if_splits)

lemma at_most_one_Nil: "at_most_one []"
  by (simp add: at_most_one_def)

lemma selected_clear_radios_update:
  assumes "desc s = (clear_radios d)[i := e]"
  shows "at_most_one (selected s)"
  unfolding selected_alt at_most_one_def
proof (rule filter_upt_at_most_one)
  fix j assume "j < length (desc s)" and "role_radio s j \<and> isSelected s j"
  then show "j = i"
    using assms
    by (cases "j = i")
       (auto simp: role_radio_def isSelected_def clear_radios_def cleared_def split: if_splits)
qed

lemma checkNode_Host_desc: "desc (state_of (checkNode s (Some Host))) = desc s"
  by (simp add: checkNode_def setAttribute_Host_fields)

lemma desc_focusNode: "desc (state_of (focusNode s n)) = desc s"
  by (simp add: focusNode_def split: option.splits)

lemma selected_setChecked: "at_most_one (selected (state_of (setChecked s t)))"
proof (cases t)
  case None
  then show ?thesis
    by (simp add: setChecked_def checkNode_def selected_clear_radios [OF desc_uncheckAll]
        at_most_one_Nil)
next
  case (Some n)
  show ?thesis
  proof (cases n)
    case Host
    have "desc (state_of (setChecked s (Some Host))) = clear_radios (desc s)"
      by (simp add: setChecked_def checkNode_def focusNode_def setAttribute_Host_fields
          desc_uncheckAll)
    then show ?thesis
      using Some Host by (simp add: selected_clear_radios at_most_one_Nil)
  next
    case (Desc i)
    have "desc (state_of (setChecked s (Some (Desc i))))
        = (clear_radios (desc s))[i := marked (desc s ! i)]"
      by (simp add: setChecked_Desc)
    then show ?thesis
      using Some Desc by (simp add: selected_clear_radios_update)
  qed
qed

lemma checkedRadioButton_None_selected:
  assumes "checkedRadioButton s = None"
  shows "selected s = []"
  using assms
  by (auto simp: checkedRadioButton_def querySelector_def find_None_iff selected_alt
      filter_empty_conv aria_checked_true_def isSelected_def)

lemma checkedButton_None: "checkedButton s = None \<Longrightarrow> checkedRadioButton s = None"
  by (simp add: checkedButton_def split: option.splits)

lemma selected_setCheckedToPrevButton:
  "at_most_one (selected (state_of (setCheckedToPrevButton s)))"
proof (cases "checkedButton s")
  case None
  then show ?thesis
    by (simp add: setCheckedToPrevButton_def prevRadioButton_def selected_setChecked
        checkedRadioButton_None_selected [OF checkedButton_None] at_most_one_Nil)
next
  case (Some c)
  then show ?thesis
    by (simp add: setCheckedToPrevButton_def prevRadioButton_def selected_setChecked)
qed

lemma selected_setCheckedToNextButton:
  "at_most_one (selected (state_of (setCheckedToNextButton s)))"
proof (cases "checkedButton s")
  case None
  then show ?thesis
    by (simp add: setCheckedToNextButton_def nextRadioButton_def selected_setChecked
        checkedRadioButton_None_selected [OF checkedButton_None] at_most_one_Nil)
next
  case (Some c)
  then show ?thesis
    by (simp add: setCheckedToNextButton_def nextRadioButton_def selected_setChecked)
qed

lemma selected_select_op:
  "select_op s e \<Longrightarrow> at_most_one (selected (state_of (handle s e)))"
  by (cases e)
     (auto simp: onKeyDown_def onClick_def direction_key_def selected_setChecked
        selected_setCheckedToPrevButton selected_setCheckedToNextButton)

lemma selected_handle:
  "at_most_one (selected s) \<Longrightarrow> at_most_one (selected (state_of (handle s e)))"
  by (cases e)
     (auto simp: onKeyDown_def onClick_def selected_setChecked
        selected_setCheckedToPrevButton selected_setCheckedToNextButton)

lemma selected_run:
  "at_most_one (selected s) \<Longrightarrow> at_most_one (selected (run s es))"
  by (induction es arbitrary: s) (simp_all add: selected_handle)

lemma select_ops_take: "select_ops s es \<Longrightarrow> select_ops s (take n es)"
proof (induction es arbitrary: s n)
  case Nil
  then show ?case by simp
next
  case (Cons e es)
  then show ?case by (cases n) simp_all
qed

text \<open>
  C1. After each operation of a sequence of select operations (direction keys and clicks on
  candidate items), started in any state of the group, at most one candidate item has
  \<^verbatim>\<open>aria-checked="true"\<close>. This includes the operations that end in a
  \<^verbatim>\<open>TypeError\<close>.
\<close>

theorem single_selection:
  assumes "select_ops s es" and "0 < n" and "n \<le> length es"
  shows "at_most_one (selected (run s (take n es)))"
proof -
  from assms obtain e es' where t: "take n es = e # es'"
    by (cases "take n es") auto
  have "select_ops s (e # es')"
    using assms(1) select_ops_take [of s es n] t by simp
  then have "at_most_one (selected (state_of (handle s e)))"
    by (simp add: selected_select_op)
  then show ?thesis
    by (simp add: t selected_run)
qed

theorem single_selection_witness:
  "select_ops group_abc [KeyDown 40, Click (Desc 0), KeyDown 38] \<and>
   at_most_one (selected (run group_abc (take 3 [KeyDown 40, Click (Desc 0), KeyDown 38]))) \<and>
   at_most_one (selected (run group_abc (take 1 [KeyDown 40, Click (Desc 0), KeyDown 38])))"
proof -
  have h: "select_ops group_abc [KeyDown 40, Click (Desc 0), KeyDown 38]"
    by code_simp
  from single_selection [OF h, of 3] single_selection [OF h, of 1] h
  show ?thesis by simp
qed

section \<open>Attaching the group\<close>

lemma checkedRadioButton_cong: "desc s' = desc s \<Longrightarrow> checkedRadioButton s' = checkedRadioButton s"
  by (simp add: checkedRadioButton_def querySelector_def aria_checked_true_def cong: find_cong)

lemma query_radio_cong:
  "desc s' = desc s \<Longrightarrow> querySelector s' role_radio = querySelector s role_radio"
  by (simp add: querySelector_def role_radio_def cong: find_cong)

lemma items_cong: "desc s' = desc s \<Longrightarrow> items s' = items s"
  by (simp add: items_def querySelectorAll_def role_radio_def cong: filter_cong)

lemma queries_setAttribute_Host:
  "checkedRadioButton (setAttribute s Host a v) = checkedRadioButton s"
  "querySelector (setAttribute s Host a v) role_radio = querySelector s role_radio"
  "items (setAttribute s Host a v) = items s"
  by (rule checkedRadioButton_cong query_radio_cong items_cong, simp add: setAttribute_Host_fields)+

lemma clear_radios_cong_state:
  "uncheckAll (setAttribute s Host Role v)
     = s\<lparr>host := putAttribute Role v (host s), desc := clear_radios (desc s),
          trace := trace s @ [SetAttribute Host Role v] @ uncheck_effects (items s)\<rparr>"
  unfolding uncheckAll_eq queries_setAttribute_Host setAttribute_Host_fields
    setAttribute_other_fields
  by (simp add: setAttribute_def)

lemma connectedCallback_checked:
  assumes "checkedRadioButton s = Some c"
  shows "connectedCallback s =
     Inr (s\<lparr>host := role_radiogroup (host s),
            desc := (clear_radios (desc s))[c := marked (desc s ! c)],
            keydown_listener := True, click_listener := True,
            trace := trace s @ [SetAttribute Host Role ''radiogroup''] @ uncheck_effects (items s)
                       @ check_effects (Desc c)\<rparr>)"
proof -
  have c: "c < length (desc s)"
    using assms by (auto simp: checkedRadioButton_def querySelector_def find_Some_iff)
  have "checkedRadioButton (setAttribute s Host Role ''radiogroup'') = Some c"
    using assms by (simp add: queries_setAttribute_Host)
  then show ?thesis
    using c
    by (simp add: connectedCallback_def Let_def checkNode_Desc clear_radios_cong_state
        role_radiogroup_def nth_clear_radios marked_clear)
qed

lemma connectedCallback_first:
  assumes "checkedRadioButton s = None" and "querySelector s role_radio = Some r"
  shows "connectedCallback s =
     Inr (s\<lparr>host := role_radiogroup (host s),
            desc := (desc s)[r := focus_first (desc s ! r)],
            keydown_listener := True, click_listener := True,
            trace := trace s @ [SetAttribute Host Role ''radiogroup'',
                                SetAttribute (Desc r) TabIndex ''0'']\<rparr>)"
proof -
  have "checkedRadioButton (setAttribute s Host Role ''radiogroup'') = None"
    and "querySelector (setAttribute s Host Role ''radiogroup'') role_radio = Some r"
    using assms by (simp_all add: queries_setAttribute_Host)
  then show ?thesis
    by (simp add: connectedCallback_def Let_def role_radiogroup_def focus_first_def)
       (simp add: setAttribute_def)
qed

lemma connectedCallback_none:
  assumes "checkedRadioButton s = None" and "querySelector s role_radio = None"
  shows "connectedCallback s =
     Inl (TypeError, s\<lparr>host := role_radiogroup (host s),
                        trace := trace s @ [SetAttribute Host Role ''radiogroup'']\<rparr>)"
proof -
  have "checkedRadioButton (setAttribute s Host Role ''radiogroup'') = None"
    and "querySelector (setAttribute s Host Role ''radiogroup'') role_radio = None"
    using assms by (simp_all add: queries_setAttribute_Host)
  then show ?thesis
    by (simp add: connectedCallback_def Let_def role_radiogroup_def)
       (simp add: setAttribute_def)
qed

lemma find_filter_hd:
  "find P xs = (case filter P xs of [] \<Rightarrow> None | x # _ \<Rightarrow> Some x)"
  by (induction xs) simp_all

lemma query_radio_items:
  "querySelector s role_radio = (case items s of [] \<Rightarrow> None | x # _ \<Rightarrow> Some x)"
  by (simp add: querySelector_def items_def querySelectorAll_def find_filter_hd)

text \<open>
  C4 (as the code has it). Attaching a group with no candidate item, when no descendant
  carries \<^verbatim>\<open>aria-checked="true"\<close> either, throws a \<^verbatim>\<open>TypeError\<close>:
  \<^verbatim>\<open>querySelector('[role="radio"]')\<close> is \<^verbatim>\<open>null\<close> and \<^verbatim>\<open>setAttribute\<close> is
  called on it. The role of the host has been set by then; no descendant is written and the
  two listeners are not registered.
\<close>

theorem connectedCallback_empty_group:
  assumes "items s = []" and "checkedRadioButton s = None"
  shows "connectedCallback s =
     Inl (TypeError, s\<lparr>host := role_radiogroup (host s),
                        trace := trace s @ [SetAttribute Host Role ''radiogroup'']\<rparr>)"
  using assms by (simp add: connectedCallback_none query_radio_items)

theorem connectedCallback_empty_group_witness:
  "items empty_group = [] \<and> checkedRadioButton empty_group = None \<and>
   connectedCallback empty_group =
     Inl (TypeError, empty_group\<lparr>host := role_radiogroup (host empty_group),
            trace := trace empty_group @ [SetAttribute Host Role ''radiogroup'']\<rparr>)"
proof -
  have h: "items empty_group = []" "checkedRadioButton empty_group = None"
    by code_simp+
  from connectedCallback_empty_group [OF h] h show ?thesis by simp
qed

text \<open>
  Attaching the empty group is an error: the call does not return, and the listeners stay
  unregistered.
\<close>

theorem connectedCallback_empty_group_counterexample:
  "items empty_group = [] \<and>
   \<not> (\<exists>s'. connectedCallback empty_group = Inr s') \<and>
   isl (connectedCallback empty_group) \<and>
   \<not> keydown_listener (state_of (connectedCallback empty_group)) \<and>
   \<not> click_listener (state_of (connectedCallback empty_group))"
proof -
  have "connectedCallback empty_group =
     Inl (TypeError, empty_group\<lparr>host := role_radiogroup (host empty_group),
                                  trace := [SetAttribute Host Role ''radiogroup'']\<rparr>)"
    by code_simp
  moreover have "items empty_group = []"
    by code_simp
  ultimately show ?thesis
    by (simp add: empty_group_def)
qed

lemma filter_eq_upt_single: "c < n \<Longrightarrow> filter (\<lambda>j. j = c) [0..<n] = [c]"
proof (induction n)
  case 0
  then show ?case by simp
next
  case (Suc n)
  show ?case
  proof (cases "c = n")
    case True
    then show ?thesis by (simp add: filter_empty_conv)
  next
    case False
    with Suc show ?thesis by simp
  qed
qed

lemma filter_upt_single:
  assumes "c < n" and "\<And>j. j < n \<Longrightarrow> P j = (j = c)"
  shows "filter P [0..<n] = [c]"
proof -
  have "filter P [0..<n] = filter (\<lambda>j. j = c) [0..<n]"
    by (rule filter_cong) (simp_all add: assms(2))
  then show ?thesis by (simp add: filter_eq_upt_single [OF assms(1)])
qed

lemma nth_update_at:
  "j < length xs \<Longrightarrow> xs[r := f (xs ! r)] ! j = (if j = r then f (xs ! j) else xs ! j)"
  by (cases "j = r") simp_all

lemma focusable_alt:
  "focusable s = filter (\<lambda>j. role_radio s j \<and> isFocusable s j) [0..<length (desc s)]"
  by (simp add: focusable_def items_def querySelectorAll_def conj_commute)

lemma role_clear_radios:
  "j < length d \<Longrightarrow> role (clear_radios d ! j) = role (d ! j)"
  by (simp add: nth_clear_radios cleared_def)

lemma marked_only:
  assumes "desc s' = (clear_radios (desc s))[c := marked (desc s ! c)]"
    and "c < length (desc s)" and "role_radio s c"
  shows "selected s' = [c]" and "focusable s' = [c]"
proof -
  have n: "length (desc s') = length (desc s)"
    using assms(1) by (simp add: length_clear_radios)
  have "\<And>j. j < length (desc s) \<Longrightarrow> (role_radio s' j \<and> isSelected s' j) = (j = c)"
    using assms
    by (auto simp: role_radio_def isSelected_def nth_list_update length_clear_radios
        nth_clear_radios marked_def cleared_def)
  then show "selected s' = [c]"
    unfolding selected_alt n by (rule filter_upt_single [OF assms(2)])
  have "\<And>j. j < length (desc s) \<Longrightarrow> (role_radio s' j \<and> isFocusable s' j) = (j = c)"
    using assms
    by (auto simp: role_radio_def isFocusable_def nth_list_update length_clear_radios
        nth_clear_radios marked_def cleared_def)
  then show "focusable s' = [c]"
    unfolding focusable_alt n by (rule filter_upt_single [OF assms(2)])
qed

lemma checkedRadioButton_Some_iff:
  "checkedRadioButton s = Some c \<longleftrightarrow>
     c < length (desc s) \<and> aria_checked_true s c \<and> (\<forall>j<c. \<not> aria_checked_true s j)"
  by (simp add: checkedRadioButton_def querySelector_def find_upt_nearest)

lemma checkedRadioButton_None_iff:
  "checkedRadioButton s = None \<longleftrightarrow> (\<forall>j<length (desc s). \<not> aria_checked_true s j)"
  by (auto simp: checkedRadioButton_def querySelector_def find_None_iff)

lemma first_checked_stray:
  assumes "checkedRadioButton s = Some c" and "\<not> role_radio s c"
  shows "stray_checked s c"
  using assms
  by (auto simp: checkedRadioButton_Some_iff stray_checked_def list_all_iff)

lemma first_checked_is_item:
  assumes "no_stray_checked s" and "checkedRadioButton s = Some c"
  shows "role_radio s c"
proof (rule ccontr)
  assume "\<not> role_radio s c"
  then have "stray_checked s c"
    using assms(2) by (rule first_checked_stray [rotated])
  moreover have "c < length (desc s)"
    using assms(2) by (simp add: checkedRadioButton_Some_iff)
  ultimately show False
    using assms(1) by (simp add: no_stray_checked_def list_all_iff)
qed

lemma checkedRadioButton_selected:
  assumes "no_stray_checked s"
  shows "checkedRadioButton s = (case selected s of [] \<Rightarrow> None | c # _ \<Rightarrow> Some c)"
proof (cases "checkedRadioButton s")
  case None
  then have "selected s = []"
    by (rule checkedRadioButton_None_selected)
  with None show ?thesis by simp
next
  case (Some c)
  have r: "role_radio s c"
    using assms Some by (rule first_checked_is_item)
  have c: "c < length (desc s)" "aria_checked_true s c" "\<forall>j<c. \<not> aria_checked_true s j"
    using Some by (simp_all add: checkedRadioButton_Some_iff)
  have "find (\<lambda>j. role_radio s j \<and> isSelected s j) [0..<length (desc s)] = Some c"
    using r c by (simp add: find_upt_nearest isSelected_def aria_checked_true_def)
  then obtain cs where "selected s = c # cs"
    unfolding selected_alt find_filter_hd by (auto split: list.splits)
  with Some show ?thesis by simp
qed

lemma selected_subset_items: "set (selected s) \<subseteq> set (items s)"
  by (auto simp: selected_def)

lemma items_mem: "j \<in> set (items s) \<longleftrightarrow> j < length (desc s) \<and> role_radio s j"
  by (auto simp: items_def querySelectorAll_def)

lemma selected_focus_first:
  assumes "desc s' = (desc s)[r := focus_first (desc s ! r)]"
  shows "selected s' = selected s"
proof -
  have n: "length (desc s') = length (desc s)" using assms by simp
  have "\<And>j. j < length (desc s) \<Longrightarrow>
      (role_radio s' j \<and> isSelected s' j) = (role_radio s j \<and> isSelected s j)"
    using assms
    by (auto simp: role_radio_def isSelected_def nth_update_at focus_first_def)
  then show ?thesis
    unfolding selected_alt n by (intro filter_cong) simp_all
qed

text \<open>
  C6 (as the code has it). Attaching a group that has a candidate item and no stray checked
  node returns normally. If some item is selected, the first selected item in document order
  ends with both flags set and every other item with both flags cleared, so that it is the
  only selected and the only focusable item. Otherwise the only write to a descendant is
  \<^verbatim>\<open>tabindex="0"\<close> on the first item, and no item is selected afterwards.
\<close>

theorem connectedCallback_normalize:
  assumes "items s \<noteq> []" and "no_stray_checked s"
  shows "\<exists>s'. connectedCallback s = Inr s' \<and>
     (case selected s of
        c # _ \<Rightarrow> desc s' = (clear_radios (desc s))[c := marked (desc s ! c)]
                  \<and> selected s' = [c] \<and> focusable s' = [c]
      | [] \<Rightarrow> desc s' = (desc s)[hd (items s) := focus_first (desc s ! hd (items s))]
                \<and> selected s' = [] \<and> isFocusable s' (hd (items s)))"
proof (cases "selected s")
  case Nil
  obtain f fs where f: "items s = f # fs"
    using assms(1) by (cases "items s") auto
  then have fm: "f < length (desc s)"
    using items_mem [of f s] by simp
  have "checkedRadioButton s = None"
    by (simp add: checkedRadioButton_selected [OF assms(2)] Nil)
  moreover have "querySelector s role_radio = Some f"
    by (simp add: query_radio_items f)
  ultimately have cc: "connectedCallback s =
     Inr (s\<lparr>host := role_radiogroup (host s),
            desc := (desc s)[f := focus_first (desc s ! f)],
            keydown_listener := True, click_listener := True,
            trace := trace s @ [SetAttribute Host Role ''radiogroup'',
                                SetAttribute (Desc f) TabIndex ''0'']\<rparr>)"
    by (rule connectedCallback_first)
  show ?thesis
    unfolding cc Nil
    using fm Nil
    by (simp add: f selected_focus_first [where r = f and s = s] isFocusable_def focus_first_def)
next
  case (Cons c cs)
  then have "c \<in> set (items s)"
    using selected_subset_items [of s] by auto
  then have cm: "c < length (desc s)" "role_radio s c"
    by (simp_all add: items_mem)
  have "checkedRadioButton s = Some c"
    by (simp add: checkedRadioButton_selected [OF assms(2)] Cons)
  then have cc: "connectedCallback s =
     Inr (s\<lparr>host := role_radiogroup (host s),
            desc := (clear_radios (desc s))[c := marked (desc s ! c)],
            keydown_listener := True, click_listener := True,
            trace := trace s @ [SetAttribute Host Role ''radiogroup''] @ uncheck_effects (items s)
                       @ check_effects (Desc c)\<rparr>)"
    by (rule connectedCallback_checked)
  show ?thesis
    unfolding cc Cons
    using marked_only [where s = s and c = c, OF _ cm]
    by simp
qed

theorem connectedCallback_normalize_witness:
  "items group_abc \<noteq> [] \<and> no_stray_checked group_abc \<and> selected group_abc = [1] \<and>
   (\<exists>s'. connectedCallback group_abc = Inr s' \<and> selected s' = [1] \<and> focusable s' = [1]) \<and>
   items group_fresh \<noteq> [] \<and> no_stray_checked group_fresh \<and> selected group_fresh = [] \<and>
   (\<exists>s'. connectedCallback group_fresh = Inr s' \<and> selected s' = [] \<and> isFocusable s' 0) \<and>
   items group_late_stray \<noteq> [] \<and> no_stray_checked group_late_stray \<and>
   selected group_late_stray = [0] \<and>
   (\<exists>s'. connectedCallback group_late_stray = Inr s' \<and> selected s' = [0]
      \<and> focusable s' = [0])"
proof -
  have a: "items group_abc \<noteq> []" "no_stray_checked group_abc"
    and sa: "selected group_abc = [1]"
    by code_simp+
  have f: "items group_fresh \<noteq> []" "no_stray_checked group_fresh"
    and sf: "selected group_fresh = []" and hf: "hd (items group_fresh) = 0"
    by code_simp+
  have l: "items group_late_stray \<noteq> []" "no_stray_checked group_late_stray"
    and sl: "selected group_late_stray = [0]"
    by code_simp+
  from connectedCallback_normalize [OF a] connectedCallback_normalize [OF f]
    connectedCallback_normalize [OF l]
  show ?thesis
    using a f l by (auto simp: sa sf hf sl)
qed

text \<open>
  With a stray checked node the claim fails. Between two unchecked buttons a
  \<^verbatim>\<open>span\<close> carries \<^verbatim>\<open>aria-checked="true"\<close>: no item is selected, yet attaching does
  not make the first item focusable; it clears both buttons and sets \<^verbatim>\<open>tabindex="0"\<close>
  on the \<^verbatim>\<open>span\<close>, leaving no item focusable.
\<close>

theorem connectedCallback_normalize_counterexample:
  "items group_stray = [0, 2] \<and> selected group_stray = [] \<and>
   \<not> isl (connectedCallback group_stray) \<and>
   \<not> isFocusable (state_of (connectedCallback group_stray)) 0 \<and>
   focusable (state_of (connectedCallback group_stray)) = [] \<and>
   tabindex (desc (state_of (connectedCallback group_stray)) ! 1) = Some ''0''"
  by code_simp


lemma marked_non_item:
  assumes "desc s' = (clear_radios (desc s))[c := marked (desc s ! c)]"
    and "\<not> role_radio s c"
  shows "selected s' = []" and "focusable s' = []"
proof -
  have n: "length (desc s') = length (desc s)"
    using assms(1) by (simp add: length_clear_radios)
  have a: "\<And>j. j < length (desc s) \<Longrightarrow> \<not> (role_radio s' j \<and> isSelected s' j)"
  proof -
    fix j assume "j < length (desc s)"
    then show "\<not> (role_radio s' j \<and> isSelected s' j)"
      using assms
      by (cases "j = c")
         (auto simp: role_radio_def isSelected_def length_clear_radios nth_clear_radios
            marked_def cleared_def split: if_splits)
  qed
  have b: "\<And>j. j < length (desc s) \<Longrightarrow> \<not> (role_radio s' j \<and> isFocusable s' j)"
  proof -
    fix j assume "j < length (desc s)"
    then show "\<not> (role_radio s' j \<and> isFocusable s' j)"
      using assms
      by (cases "j = c")
         (auto simp: role_radio_def isFocusable_def length_clear_radios nth_clear_radios
            marked_def cleared_def split: if_splits)
  qed
  show "selected s' = []"
    unfolding selected_alt n using a by (simp add: filter_empty_conv)
  show "focusable s' = []"
    unfolding focusable_alt n using b by (simp add: filter_empty_conv)
qed

lemma stray_checked_first:
  assumes "j < length (desc s)" and "stray_checked s j"
  shows "\<exists>c. checkedRadioButton s = Some c \<and> \<not> role_radio s c"
proof -
  have "checkedRadioButton s \<noteq> None"
    using assms by (auto simp: checkedRadioButton_None_iff stray_checked_def)
  then obtain c where c: "checkedRadioButton s = Some c" by auto
  then have cc: "aria_checked_true s c" "\<forall>i<c. \<not> aria_checked_true s i"
    by (simp_all add: checkedRadioButton_Some_iff)
  have "c \<le> j"
    using cc(2) assms(2) by (auto simp: stray_checked_def intro: leI)
  have "\<not> role_radio s c"
  proof (cases "c = j")
    case True
    then show ?thesis using assms(2) by (simp add: stray_checked_def)
  next
    case False
    with \<open>c \<le> j\<close> have "c < j" by simp
    then show ?thesis
      using assms(2) cc(1) by (auto simp: stray_checked_def list_all_iff)
  qed
  with c show ?thesis by blast
qed

text \<open>
  The condition is needed in every tree: with a stray checked node, attaching leaves no item
  selected and no item focusable, whatever the items' flags were.
\<close>

lemma attach_stray_checked:
  assumes "\<not> no_stray_checked s"
  shows "\<exists>s'. connectedCallback s = Inr s' \<and> selected s' = [] \<and> focusable s' = []"
proof -
  from assms obtain j where "j < length (desc s)" "stray_checked s j"
    by (auto simp: no_stray_checked_def list_all_iff)
  then obtain c where c: "checkedRadioButton s = Some c" "\<not> role_radio s c"
    using stray_checked_first by blast
  show ?thesis
    unfolding connectedCallback_checked [OF c(1)]
    using marked_non_item [where s = s and c = c, OF _ c(2)]
    by simp
qed

lemma role_radiogroup_idem: "role_radiogroup (role_radiogroup h) = role_radiogroup h"
  by (simp add: role_radiogroup_def)

lemma clear_radios_idem: "clear_radios (clear_radios d) = clear_radios d"
  by (simp add: clear_radios_def cleared_def)

lemma marked_idem: "marked (marked e) = marked e"
  by (simp add: marked_def)

lemma normalize_twice:
  assumes "c < length d"
  shows "(clear_radios ((clear_radios d)[c := marked (d ! c)]))
            [c := marked ((clear_radios d)[c := marked (d ! c)] ! c)]
         = (clear_radios d)[c := marked (d ! c)]"
proof (rule nth_equalityI)
  show "length ((clear_radios ((clear_radios d)[c := marked (d ! c)]))
            [c := marked ((clear_radios d)[c := marked (d ! c)] ! c)])
      = length ((clear_radios d)[c := marked (d ! c)])"
    by (simp add: length_clear_radios)
next
  fix j
  assume "j < length ((clear_radios ((clear_radios d)[c := marked (d ! c)]))
            [c := marked ((clear_radios d)[c := marked (d ! c)] ! c)])"
  then have j: "j < length d" by (simp add: length_clear_radios)
  show "(clear_radios ((clear_radios d)[c := marked (d ! c)]))
            [c := marked ((clear_radios d)[c := marked (d ! c)] ! c)] ! j
      = (clear_radios d)[c := marked (d ! c)] ! j"
  proof (cases "j = c")
    case True
    then show ?thesis using assms by (simp add: length_clear_radios marked_idem)
  next
    case False
    then show ?thesis using j
      by (simp add: length_clear_radios nth_clear_radios cleared_def)
  qed
qed

lemma connectedCallback_twice_checked:
  assumes "checkedRadioButton s = Some c"
  shows "\<exists>s1 s2. connectedCallback s = Inr s1 \<and> connectedCallback s1 = Inr s2
           \<and> flags s2 = flags s1"
proof -
  let ?d1 = "(clear_radios (desc s))[c := marked (desc s ! c)]"
  let ?s1 = "s\<lparr>host := role_radiogroup (host s), desc := ?d1,
            keydown_listener := True, click_listener := True,
            trace := trace s @ [SetAttribute Host Role ''radiogroup''] @ uncheck_effects (items s)
                       @ check_effects (Desc c)\<rparr>"
  have c: "c < length (desc s)" and nc: "\<forall>j<c. \<not> aria_checked_true s j"
    using assms by (simp_all add: checkedRadioButton_Some_iff)
  have 1: "connectedCallback s = Inr ?s1"
    using assms by (rule connectedCallback_checked)
  have "\<forall>j<c. \<not> aria_checked_true ?s1 j"
    using nc c
    by (auto simp: aria_checked_true_def nth_clear_radios cleared_def)
  then have "checkedRadioButton ?s1 = Some c"
    using c
    by (simp add: checkedRadioButton_Some_iff length_clear_radios)
       (simp add: aria_checked_true_def length_clear_radios marked_def)
  from connectedCallback_checked [OF this]
  have 2: "connectedCallback ?s1 =
     Inr (?s1\<lparr>host := role_radiogroup (host ?s1),
            desc := (clear_radios (desc ?s1))[c := marked (desc ?s1 ! c)],
            keydown_listener := True, click_listener := True,
            trace := trace ?s1 @ [SetAttribute Host Role ''radiogroup'']
                       @ uncheck_effects (items ?s1) @ check_effects (Desc c)\<rparr>)" .
  show ?thesis
  proof (intro exI conjI)
    show "connectedCallback s = Inr ?s1" by (rule 1)
    show "connectedCallback ?s1 = Inr (?s1\<lparr>host := role_radiogroup (host ?s1),
            desc := (clear_radios (desc ?s1))[c := marked (desc ?s1 ! c)],
            keydown_listener := True, click_listener := True,
            trace := trace ?s1 @ [SetAttribute Host Role ''radiogroup'']
                       @ uncheck_effects (items ?s1) @ check_effects (Desc c)\<rparr>)"
      by (rule 2)
    show "flags (?s1\<lparr>host := role_radiogroup (host ?s1),
            desc := (clear_radios (desc ?s1))[c := marked (desc ?s1 ! c)],
            keydown_listener := True, click_listener := True,
            trace := trace ?s1 @ [SetAttribute Host Role ''radiogroup'']
                       @ uncheck_effects (items ?s1) @ check_effects (Desc c)\<rparr>) = flags ?s1"
      using normalize_twice [OF c] by (simp add: flags_def role_radiogroup_idem)
  qed
qed

lemma connectedCallback_twice_first:
  assumes "checkedRadioButton s = None" and "querySelector s role_radio = Some r"
  shows "\<exists>s1 s2. connectedCallback s = Inr s1 \<and> connectedCallback s1 = Inr s2
           \<and> flags s2 = flags s1"
proof -
  let ?d1 = "(desc s)[r := focus_first (desc s ! r)]"
  let ?s1 = "s\<lparr>host := role_radiogroup (host s), desc := ?d1,
            keydown_listener := True, click_listener := True,
            trace := trace s @ [SetAttribute Host Role ''radiogroup'',
                                SetAttribute (Desc r) TabIndex ''0'']\<rparr>"
  have 1: "connectedCallback s = Inr ?s1"
    using assms by (rule connectedCallback_first)
  have a: "checkedRadioButton ?s1 = None"
    using assms(1)
    by (auto simp: checkedRadioButton_None_iff aria_checked_true_def nth_update_at focus_first_def)
  have "find (role_radio ?s1) [0..<length (desc s)] = find (role_radio s) [0..<length (desc s)]"
    by (rule find_cong) (auto simp: role_radio_def nth_update_at focus_first_def)
  then have b: "querySelector ?s1 role_radio = Some r"
    using assms(2) by (simp add: querySelector_def)
  from connectedCallback_first [OF a b]
  have 2: "connectedCallback ?s1 =
     Inr (?s1\<lparr>host := role_radiogroup (host ?s1),
            desc := (desc ?s1)[r := focus_first (desc ?s1 ! r)],
            keydown_listener := True, click_listener := True,
            trace := trace ?s1 @ [SetAttribute Host Role ''radiogroup'',
                                SetAttribute (Desc r) TabIndex ''0'']\<rparr>)" .
  have d: "?d1[r := focus_first (?d1 ! r)] = ?d1"
    by (cases "r < length (desc s)") (simp_all add: focus_first_def list_update_beyond)
  show ?thesis
  proof (intro exI conjI)
    show "connectedCallback s = Inr ?s1" by (rule 1)
    show "connectedCallback ?s1 = Inr (?s1\<lparr>host := role_radiogroup (host ?s1),
            desc := (desc ?s1)[r := focus_first (desc ?s1 ! r)],
            keydown_listener := True, click_listener := True,
            trace := trace ?s1 @ [SetAttribute Host Role ''radiogroup'',
                                SetAttribute (Desc r) TabIndex ''0'']\<rparr>)"
      by (rule 2)
    show "flags (?s1\<lparr>host := role_radiogroup (host ?s1),
            desc := (desc ?s1)[r := focus_first (desc ?s1 ! r)],
            keydown_listener := True, click_listener := True,
            trace := trace ?s1 @ [SetAttribute Host Role ''radiogroup'',
                                SetAttribute (Desc r) TabIndex ''0'']\<rparr>) = flags ?s1"
      using d by (simp add: flags_def role_radiogroup_idem)
  qed
qed

lemma connectedCallback_twice_none:
  assumes "checkedRadioButton s = None" and "querySelector s role_radio = None"
  shows "\<exists>s1 s2. connectedCallback s = Inl (TypeError, s1)
           \<and> connectedCallback s1 = Inl (TypeError, s2) \<and> flags s2 = flags s1"
proof -
  let ?s1 = "s\<lparr>host := role_radiogroup (host s),
                        trace := trace s @ [SetAttribute Host Role ''radiogroup'']\<rparr>"
  have 1: "connectedCallback s = Inl (TypeError, ?s1)"
    using assms by (rule connectedCallback_none)
  have a: "checkedRadioButton ?s1 = None"
    using assms(1) checkedRadioButton_cong [of ?s1 s] by simp
  have b: "querySelector ?s1 role_radio = None"
    using assms(2) query_radio_cong [of ?s1 s] by simp
  from connectedCallback_none [OF a b]
  have 2: "connectedCallback ?s1 =
     Inl (TypeError, ?s1\<lparr>host := role_radiogroup (host ?s1),
                        trace := trace ?s1 @ [SetAttribute Host Role ''radiogroup'']\<rparr>)" .
  show ?thesis
  proof (intro exI conjI)
    show "connectedCallback s = Inl (TypeError, ?s1)" by (rule 1)
    show "connectedCallback ?s1 =
        Inl (TypeError, ?s1\<lparr>host := role_radiogroup (host ?s1),
                        trace := trace ?s1 @ [SetAttribute Host Role ''radiogroup'']\<rparr>)"
      by (rule 2)
    show "flags (?s1\<lparr>host := role_radiogroup (host ?s1),
                        trace := trace ?s1 @ [SetAttribute Host Role ''radiogroup'']\<rparr>)
        = flags ?s1"
      by (simp add: flags_def role_radiogroup_idem)
  qed
qed

text \<open>
  C7. Attaching twice in a row leaves the flags (the attributes of the host and of every
  descendant, and the listeners) as attaching once leaves them, and the second call returns
  or throws as the first did. This holds from every state of the tree.
\<close>

theorem connectedCallback_idempotent:
  "flags (state_of (connectedCallback (state_of (connectedCallback s))))
     = flags (state_of (connectedCallback s))
   \<and> isl (connectedCallback (state_of (connectedCallback s))) = isl (connectedCallback s)"
proof (cases "checkedRadioButton s")
  case (Some c)
  from connectedCallback_twice_checked [OF this] show ?thesis by auto
next
  case None
  show ?thesis
  proof (cases "querySelector s role_radio")
    case (Some r)
    from connectedCallback_twice_first [OF None this] show ?thesis by auto
  next
    case n: None
    from connectedCallback_twice_none [OF None n] show ?thesis by auto
  qed
qed

theorem connectedCallback_idempotent_witness:
  "flags (state_of (connectedCallback (state_of (connectedCallback group_abc))))
     = flags (state_of (connectedCallback group_abc)) \<and>
   selected (state_of (connectedCallback group_abc)) = [1]"
proof -
  have "selected (state_of (connectedCallback group_abc)) = [1]"
    by code_simp
  with connectedCallback_idempotent [of group_abc] show ?thesis by simp
qed

section \<open>Wrapping around\<close>

lemma hd_filter_upt:
  assumes "filter P [0..<n] \<noteq> []"
  shows "hd (filter P [0..<n]) < n \<and> P (hd (filter P [0..<n]))
           \<and> (\<forall>j<hd (filter P [0..<n]). \<not> P j)"
proof -
  obtain q qs where q: "filter P [0..<n] = q # qs"
    using assms by (cases "filter P [0..<n]") auto
  then have "find P [0..<n] = Some q"
    by (simp add: find_filter_hd)
  then show ?thesis
    by (simp add: find_upt_nearest q)
qed

lemma last_filter_upt:
  assumes "filter P [0..<n] \<noteq> []"
  shows "last (filter P [0..<n]) < n \<and> P (last (filter P [0..<n]))
           \<and> (\<forall>j. last (filter P [0..<n]) < j \<and> j < n \<longrightarrow> \<not> P j)"
proof -
  have ne: "filter P (rev [0..<n]) \<noteq> []"
    using assms by (simp add: filter_empty_conv)
  then obtain q qs where q: "filter P (rev [0..<n]) = q # qs"
    by (cases "filter P (rev [0..<n])") auto
  have "last (filter P [0..<n]) = hd (rev (filter P [0..<n]))"
    using assms by (simp add: hd_rev)
  also have "\<dots> = q"
    by (simp add: rev_filter q)
  finally have l: "last (filter P [0..<n]) = q" .
  have "find P (rev [0..<n]) = Some q"
    by (simp add: find_filter_hd q)
  then show ?thesis
    unfolding l by (simp add: find_rev_upt_nearest)
qed

lemma hd_items:
  assumes "items s \<noteq> []"
  shows "hd (items s) < length (desc s)" "role_radio s (hd (items s))"
    "\<forall>j<hd (items s). \<not> role_radio s j"
  using hd_filter_upt [of "role_radio s" "length (desc s)"] assms
  by (simp_all add: items_def querySelectorAll_def)

lemma last_items:
  assumes "items s \<noteq> []"
  shows "last (items s) < length (desc s)" "role_radio s (last (items s))"
    "\<forall>j. last (items s) < j \<and> j < length (desc s) \<longrightarrow> \<not> role_radio s j"
  using last_filter_upt [of "role_radio s" "length (desc s)"] assms
  by (simp_all add: items_def querySelectorAll_def)

lemma firstRadioButton_hd_iff:
  assumes "items s \<noteq> []"
  shows "firstRadioButton s = Some (hd (items s)) \<longleftrightarrow> first_of_type s (hd (items s))"
  using hd_items [OF assms]
  by (auto simp: firstRadioButton_def querySelector_def find_upt_nearest radio_first_of_type_def)

lemma lastRadioButton_last_iff:
  assumes "items s \<noteq> []"
  shows "lastRadioButton s = Some (last (items s)) \<longleftrightarrow>
     last_of_type s (last (items s))
     \<and> list_all (\<lambda>j. j = last (items s) \<or> \<not> last_of_type s j) (items s)"
proof -
  let ?l = "last (items s)"
  note l = last_items [OF assms]
  have "(\<forall>j<?l. \<not> radio_last_of_type s j)
      \<longleftrightarrow> (\<forall>j\<in>set (items s). j = ?l \<or> \<not> last_of_type s j)"
  proof
    assume a: "\<forall>j<?l. \<not> radio_last_of_type s j"
    show "\<forall>j\<in>set (items s). j = ?l \<or> \<not> last_of_type s j"
    proof
      fix j assume j: "j \<in> set (items s)"
      then have jj: "j < length (desc s)" "role_radio s j" by (simp_all add: items_mem)
      show "j = ?l \<or> \<not> last_of_type s j"
      proof (cases "j = ?l")
        case False
        have "\<not> ?l < j" using l(3) jj by blast
        with False have "j < ?l" by simp
        then show ?thesis using a jj(2) by (auto simp: radio_last_of_type_def)
      qed simp
    qed
  next
    assume b: "\<forall>j\<in>set (items s). j = ?l \<or> \<not> last_of_type s j"
    show "\<forall>j<?l. \<not> radio_last_of_type s j"
    proof (intro allI impI)
      fix j assume j: "j < ?l"
      show "\<not> radio_last_of_type s j"
      proof
        assume r: "radio_last_of_type s j"
        then have "j \<in> set (items s)"
          using j l(1) by (simp add: radio_last_of_type_def items_mem)
        with b j r show False by (auto simp: radio_last_of_type_def)
      qed
    qed
  qed
  then show ?thesis
    using l(1,2)
    by (auto simp: lastRadioButton_def querySelector_def find_upt_nearest
        radio_last_of_type_def list_all_iff)
qed

lemma wrap_ready_iff:
  assumes "items s \<noteq> []"
  shows "wrap_ready s \<longleftrightarrow>
     firstRadioButton s = Some (hd (items s)) \<and> lastRadioButton s = Some (last (items s))"
  by (simp add: wrap_ready_def firstRadioButton_hd_iff [OF assms]
      lastRadioButton_last_iff [OF assms])

lemma firstRadioButton_item: "firstRadioButton s = Some x \<Longrightarrow> x \<in> set (items s)"
  by (simp add: firstRadioButton_def querySelector_def find_upt_nearest radio_first_of_type_def
      items_mem)

lemma lastRadioButton_item: "lastRadioButton s = Some x \<Longrightarrow> x \<in> set (items s)"
  by (simp add: lastRadioButton_def querySelector_def find_upt_nearest radio_last_of_type_def
      items_mem)

lemma nextRadioButton_last:
  assumes "items s \<noteq> []"
  shows "nextRadioButton s (Some (last (items s))) = Inr None"
  using last_items(3) [OF assms]
  by (simp add: nextRadioButton_def nextElementSibling_def nextLoop_find find_None_iff)

lemma prevRadioButton_first:
  assumes "items s \<noteq> []"
  shows "prevRadioButton s (Some (hd (items s))) = Inr None"
  using hd_items(3) [OF assms]
  by (simp add: prevRadioButton_def previousElementSibling_def prevLoop_find find_None_iff)

lemma setChecked_None: "setChecked s None = Inl (TypeError, uncheckAll s)"
  by (simp add: setChecked_def checkNode_def)

lemma setChecked_selects:
  assumes "i \<in> set (items s)"
  shows "\<exists>s'. setChecked s (Some (Desc i)) = Inr s' \<and> selected s' = [i] \<and> focusable s' = [i]
           \<and> last (trace s') = Focus (Desc i)"
proof -
  have i: "i < length (desc s)" "role_radio s i"
    using assms by (simp_all add: items_mem)
  show ?thesis
    unfolding setChecked_Desc
    using marked_only [where s = s and c = i, OF _ i]
    by simp
qed

lemma selects_item:
  assumes "x \<in> set (items s)"
  shows "(\<exists>s'. setChecked s (Some (Desc x)) = Inr s' \<and> selected s' = [y]) \<longleftrightarrow> x = y"
proof -
  from setChecked_selects [OF assms] obtain s' where
    "setChecked s (Some (Desc x)) = Inr s'" "selected s' = [x]"
    by blast
  then show ?thesis by auto
qed

lemma next_from_last:
  assumes "items s \<noteq> []" and "checkedButton s = Some (last (items s))"
  shows "(\<exists>s'. setCheckedToNextButton s = Inr s' \<and> selected s' = [hd (items s)])
           \<longleftrightarrow> wrap_ready s"
proof (cases "lastRadioButton s = Some (last (items s))")
  case True
  then have n: "setCheckedToNextButton s = setChecked s (map_option Desc (firstRadioButton s))"
    by (simp add: setCheckedToNextButton_def assms(2))
  show ?thesis
  proof (cases "firstRadioButton s")
    case None
    then show ?thesis
      by (simp add: n setChecked_None wrap_ready_iff [OF assms(1)])
  next
    case (Some x)
    then have "x \<in> set (items s)" by (rule firstRadioButton_item)
    then show ?thesis
      by (simp add: n Some selects_item wrap_ready_iff [OF assms(1)] True)
  qed
next
  case False
  then have "setCheckedToNextButton s = Inl (TypeError, uncheckAll s)"
    by (simp add: setCheckedToNextButton_def assms(2) nextRadioButton_last [OF assms(1)]
        setChecked_None)
  then show ?thesis
    using False by (simp add: wrap_ready_iff [OF assms(1)])
qed

lemma prev_from_first:
  assumes "items s \<noteq> []" and "checkedButton s = Some (hd (items s))"
  shows "(\<exists>s'. setCheckedToPrevButton s = Inr s' \<and> selected s' = [last (items s)])
           \<longleftrightarrow> wrap_ready s"
proof (cases "firstRadioButton s = Some (hd (items s))")
  case True
  then have n: "setCheckedToPrevButton s = setChecked s (map_option Desc (lastRadioButton s))"
    by (simp add: setCheckedToPrevButton_def assms(2))
  show ?thesis
  proof (cases "lastRadioButton s")
    case None
    then show ?thesis
      by (simp add: n setChecked_None wrap_ready_iff [OF assms(1)])
  next
    case (Some x)
    then have "x \<in> set (items s)" by (rule lastRadioButton_item)
    then show ?thesis
      by (simp add: n Some selects_item wrap_ready_iff [OF assms(1)] True)
  qed
next
  case False
  then have "setCheckedToPrevButton s = Inl (TypeError, uncheckAll s)"
    by (simp add: setCheckedToPrevButton_def assms(2) prevRadioButton_first [OF assms(1)]
        setChecked_None)
  then show ?thesis
    using False by (simp add: wrap_ready_iff [OF assms(1)])
qed




section \<open>The focusable item\<close>

text \<open>
  C2. Two buttons, the second written with \<^verbatim>\<open>tabindex="0"\<close>, none checked. Connecting
  the buttons keeps the value the user has set; attaching the group then sets
  \<^verbatim>\<open>tabindex="0"\<close> on the first button and resets no other, so that two items are
  focusable in the state reached by attaching.
\<close>

theorem attach_two_focusable:
  "items group_two_buttons = [0, 1] \<and> selected group_two_buttons = [] \<and>
   \<not> isl (connectedCallback group_two_buttons) \<and>
   focusable (state_of (connectedCallback group_two_buttons)) = [0, 1]"
  by code_simp

section \<open>The scenarios of the specification\<close>

text \<open>
  Three buttons, none checked: attaching makes the first focusable and selects none; the
  down key then selects the second, the third, and wraps to the first. With the second
  button checked, a click on the third selects it and requests the focus on it.
\<close>

lemma scenario_three_items:
  "focusable (state_of (connectedCallback group_fresh)) = [0]"
  "selected (state_of (connectedCallback group_fresh)) = []"
  "selected (run (state_of (connectedCallback group_fresh)) [KeyDown KEYCODE_DOWN]) = [1]"
  "focusable (run (state_of (connectedCallback group_fresh)) [KeyDown KEYCODE_DOWN]) = [1]"
  "selected (run (state_of (connectedCallback group_fresh))
      [KeyDown KEYCODE_DOWN, KeyDown KEYCODE_DOWN]) = [2]"
  "selected (run (state_of (connectedCallback group_fresh))
      [KeyDown KEYCODE_DOWN, KeyDown KEYCODE_DOWN, KeyDown KEYCODE_DOWN]) = [0]"
  by code_simp+

lemma scenario_pointer:
  "selected (run group_abc [Click (Desc 2)]) = [2]"
  "focusable (run group_abc [Click (Desc 2)]) = [2]"
  "last (trace (run group_abc [Click (Desc 2)])) = Focus (Desc 2)"
  by code_simp+

end
